theory Spec2Isabelle
  imports Main "HOL-Library.List_Lexorder" "HOL-Library.Product_Lexorder"
begin

section \<open>Python values used by csv\_to\_html\_gallery.py\<close>

text \<open>
  A Python \<open>str\<close> is a sequence of Unicode code points; a code point is a natural number.
  Comparison of two \<open>str\<close> values is lexicographic on the code points (a proper prefix is
  smaller), which is the order \<open>HOL-Library.List_Lexorder\<close> gives to \<open>nat list\<close>; tuples
  compare component by component (\<open>HOL-Library.Product_Lexorder\<close>).
  \<open>S\<close> turns a literal of the source into its code points (all literals but one are ASCII).
\<close>

type_synonym pystr = "nat list"

definition S :: "string \<Rightarrow> pystr" where
  "S = map of_char"

text \<open>
  The value stored under a column name in a row dictionary of \<open>csv.DictReader\<close> is a
  \<open>str\<close> or \<open>None\<close> (the reader's \<open>restval\<close>, stored for the columns a short row lacks).
\<close>

datatype pyval = PyNone | PyStr pystr

text \<open>
  What a run can raise: \<open>InputError\<close> stands for the errors of opening, decoding and
  tokenising the input file, \<open>OSError\<close> for the errors \<open>Path.exists()\<close> passes on,
  \<open>OutputError\<close> for the errors of opening and writing the output file, and
  \<open>UnicodeEncodeError\<close> for a failing \<open>print\<close>.
\<close>

datatype error = InputError | AttributeError | TypeError | IndexError | OSError | OutputError
  | UnicodeEncodeError

type_synonym csv_record = "pystr \<rightharpoonup> pyval"

type_synonym group_key = "pystr \<times> pystr"

type_synonym groups = "(group_key \<times> csv_record list) list"

subsection \<open>String methods\<close>

text \<open>
  \<open>str.strip()\<close> removes the characters for which \<open>str.isspace\<close> holds from both ends:
  U+0009..U+000D, U+001C..U+0020, U+0085, U+00A0, U+1680, U+2000..U+200A, U+2028, U+2029,
  U+202F, U+205F and U+3000.
\<close>

definition is_space :: "nat \<Rightarrow> bool" where
  "is_space c \<longleftrightarrow> c \<in> set [9, 10, 11, 12, 13, 28, 29, 30, 31, 32, 133, 160, 5760,
     8192, 8193, 8194, 8195, 8196, 8197, 8198, 8199, 8200, 8201, 8202,
     8232, 8233, 8239, 8287, 12288]"

definition rstrip :: "pystr \<Rightarrow> pystr" where
  "rstrip s = rev (dropWhile is_space (rev s))"

definition strip :: "pystr \<Rightarrow> pystr" where
  "strip s = rstrip (dropWhile is_space s)"

text \<open>\<open>s.replace(c, r)\<close> for a one-character \<open>c\<close>.\<close>

definition replace :: "nat \<Rightarrow> pystr \<Rightarrow> pystr \<Rightarrow> pystr" where
  "replace c r s = concat (map (\<lambda>x. if x = c then r else [x]) s)"

text \<open>
  \<open>html.escape(s, quote=True)\<close>: five replacements in the library's order,
  \<open>&\<close> (38) first, then \<open><\<close> (60), \<open>>\<close> (62), the double quote (34) and the
  single quote (39).
\<close>

definition html_escape :: "pystr \<Rightarrow> pystr" where
  "html_escape s =
     replace 39 (S ''&#x27;'')
       (replace 34 (S ''&quot;'')
         (replace 62 (S ''&gt;'')
           (replace 60 (S ''&lt;'')
             (replace 38 (S ''&amp;'') s))))"

text \<open>\<open>cell.split(",")\<close>: the pieces between the commas (44); never an empty list.\<close>

fun split_comma :: "pystr \<Rightarrow> pystr list" where
  "split_comma [] = [[]]"
| "split_comma (x # xs) =
     (if x = 44 then [] # split_comma xs
      else (case split_comma xs of
              [] \<Rightarrow> [[x]]
            | p # ps \<Rightarrow> (x # p) # ps))"

text \<open>\<open>sep.join(parts)\<close>.\<close>

fun join_str :: "pystr \<Rightarrow> pystr list \<Rightarrow> pystr" where
  "join_str sep [] = []"
| "join_str sep [p] = p"
| "join_str sep (p # q # ps) = p @ sep @ join_str sep (q # ps)"

text \<open>\<open>str(count)\<close> for a list length: the decimal digits.\<close>

fun str_nat :: "nat \<Rightarrow> pystr" where
  "str_nat n = (if n < 10 then [48 + n] else str_nat (n div 10) @ [48 + n mod 10])"

declare str_nat.simps [simp del]

text \<open>\<open>value or ""\<close>: \<open>None\<close> and the empty string are falsy.\<close>

definition or_empty :: "pyval \<Rightarrow> pystr" where
  "or_empty v = (case v of PyNone \<Rightarrow> [] | PyStr s \<Rightarrow> s)"

text \<open>\<open>record.get(key, "")\<close>: the default is used only when the key is absent.\<close>

definition py_get :: "csv_record \<Rightarrow> pystr \<Rightarrow> pyval" where
  "py_get r k = (case r k of None \<Rightarrow> PyStr [] | Some v \<Rightarrow> v)"

text \<open>\<open>v.strip()\<close> on a value that may be \<open>None\<close>, which has no such attribute.\<close>

definition py_strip :: "pyval \<Rightarrow> error + pystr" where
  "py_strip v = (case v of PyNone \<Rightarrow> Inl AttributeError | PyStr s \<Rightarrow> Inr (strip s))"

text \<open>
  \<open>urllib.parse.unquote(v)\<close>: \<open>'%' not in None\<close> raises TypeError; a string without
  \<open>%\<close> (37) is returned as it is; any other string goes through the library's decoder of
  percent escapes, which is a parameter of the model.
\<close>

definition unquote :: "(pystr \<Rightarrow> pystr) \<Rightarrow> pyval \<Rightarrow> error + pystr" where
  "unquote decode v =
     (case v of
        PyNone \<Rightarrow> Inl TypeError
      | PyStr s \<Rightarrow> Inr (if 37 \<notin> set s then s else decode s))"

section \<open>The helpers of the script\<close>

definition safe_text :: "pyval \<Rightarrow> pystr" where
  "safe_text v = (let txt = strip (or_empty v) in if txt \<noteq> [] then txt else S ''N/A'')"

definition safe_html :: "pyval \<Rightarrow> pystr" where
  "safe_html v = html_escape (or_empty v)"

definition chip :: "pystr \<Rightarrow> pystr" where
  \<open>chip tag = S ''<a href="#" class="filter-chip">'' @ safe_html (PyStr tag) @ S ''</a>''\<close>

definition make_chips :: "pyval \<Rightarrow> pystr" where
  "make_chips cell =
     (if or_empty cell = [] \<or> strip (or_empty cell) = [] then S ''N/A''
      else
        (let tags = map strip (filter (\<lambda>t. strip t \<noteq> []) (split_comma (or_empty cell)))
         in if tags = [] then S ''N/A''
            else join_str (S '' '') (map chip tags)))"

section \<open>Reading and grouping\<close>

text \<open>
  One row dictionary of \<open>csv.DictReader\<close>: \<open>dict(zip(fieldnames, row))\<close>, then \<open>None\<close>
  for every column beyond the row's length. The fields beyond the header's length are stored
  under the key \<open>None\<close>, which no lookup of the script uses, so they are left out.
\<close>

definition make_record :: "pystr list \<Rightarrow> pystr list \<Rightarrow> csv_record" where
  "make_record fieldnames row =
     fold (\<lambda>k d. d(k \<mapsto> PyNone)) (drop (length row) fieldnames)
       (fold (\<lambda>(k, v) d. d(k \<mapsto> PyStr v)) (zip fieldnames row) Map.empty)"

text \<open>
  The rows of the file as \<open>csv.reader\<close> yields them: the first is the header, empty rows
  after it are skipped.
\<close>

definition dict_reader :: "pystr list list \<Rightarrow> csv_record list" where
  "dict_reader rows =
     (case rows of
        [] \<Rightarrow> []
      | fieldnames # rest \<Rightarrow> map (make_record fieldnames) (filter (\<lambda>row. row \<noteq> []) rest))"

definition group_key :: "csv_record \<Rightarrow> error + group_key" where
  "group_key r =
     (case py_strip (py_get r (S ''Game Name'')) of
        Inl e \<Rightarrow> Inl e
      | Inr name \<Rightarrow>
          (case py_strip (py_get r (S ''Game Page Link'')) of
             Inl e \<Rightarrow> Inl e
           | Inr link \<Rightarrow> Inr (name, link)))"

text \<open>\<open>groups[key].append(record)\<close> on a \<open>defaultdict(list)\<close>, kept in insertion order.\<close>

fun groups_append :: "'k \<Rightarrow> 'v \<Rightarrow> ('k \<times> 'v list) list \<Rightarrow> ('k \<times> 'v list) list" where
  "groups_append k r [] = [(k, [r])]"
| "groups_append k r ((k', rs) # g) =
     (if k = k' then (k', rs @ [r]) # g else (k', rs) # groups_append k r g)"

fun read_group :: "csv_record list \<Rightarrow> groups \<Rightarrow> error + groups" where
  "read_group [] g = Inr g"
| "read_group (r # rs) g =
     (case group_key r of
        Inl e \<Rightarrow> Inl e
      | Inr k \<Rightarrow> read_group rs (groups_append k r g))"

text \<open>
  \<open>sorted(groups.items())\<close>: the items are (key, records) tuples with pairwise different
  keys, so the comparison is decided by the keys.
\<close>

definition sorted_groups :: "csv_record list \<Rightarrow> error + groups" where
  "sorted_groups recs =
     (case read_group recs [] of
        Inl e \<Rightarrow> Inl e
      | Inr g \<Rightarrow> Inr (sort_key fst g))"

section \<open>Rendering\<close>

text \<open>
  The two template constants of the script are fixed text that no property below depends
  on; they and the percent decoder are the parameters \<open>lib\<close>. The file system is the
  function \<open>fs\<close>: what \<open>Path(p).exists()\<close> gives for a path \<open>p\<close>, which is \<open>True\<close>,
  \<open>False\<close> (also for the errors the method swallows: no such file, not a directory, a
  path that cannot be encoded) or the \<open>OSError\<close> it raises again (a name too long, a
  directory that may not be searched).
\<close>

record assets =
  HTML_HEADER :: pystr
  HTML_FOOTER :: pystr
  percent_decode :: "pystr \<Rightarrow> pystr"

text \<open>The local variables of the loop body that go into the row.\<close>

record cells =
  img :: pystr
  title_cell :: pystr
  author :: pystr
  category :: pystr
  genre :: pystr
  tags :: pystr
  price :: pystr

definition suffix :: "nat \<Rightarrow> pystr" where
  "suffix count = (if count > 1 then S '' ('' @ str_nat count @ S '')'' else [])"

definition details_html :: "pystr \<Rightarrow> pystr" where
  \<open>details_html description =
     (if description \<noteq> S ''N/A''
      then S ''<details style="margin-top:4px;"><summary style="cursor:pointer;">Description</summary>''
         @ S ''<div style="margin-top:6px; white-space:pre-wrap; font-size:0.9em; line-height:1.4;">''
         @ description @ S ''</div></details>''
      else [])\<close>

text \<open>
  The body of the second loop of \<open>build_rows\<close>. In \<open>thumb_url and thumb_path.exists()\<close>
  the file system is asked only when \<open>thumb_url\<close> is not empty.
\<close>

definition render_cells ::
  "assets \<Rightarrow> (pystr \<Rightarrow> error + bool) \<Rightarrow> group_key \<times> csv_record list \<Rightarrow> error + cells" where
  \<open>render_cells lib fs item =
     (case item of ((game_name, page_link), records) \<Rightarrow>
        (let count = length records in
         case records of
           [] \<Rightarrow> Inl IndexError
         | first # _ \<Rightarrow>
             (case unquote (percent_decode lib) (py_get first (S ''Thumbnail'')) of
                Inl e \<Rightarrow> Inl e
              | Inr thumb_url \<Rightarrow>
                  (case (if thumb_url \<noteq> [] then fs thumb_url else Inr False) of
                     Inl e \<Rightarrow> Inl e
                   | Inr shown \<Rightarrow>
                       (let image =
                              (if shown
                               then S ''<div class="thumb-wrapper">''
                                  @ S ''<img class="thumb" src="'' @ thumb_url @ S ''">''
                                  @ S ''<img class="zoomed" src="'' @ thumb_url @ S ''">''
                                  @ S ''</div>''
                               else S ''N/A'');
                            title = safe_html (PyStr (if game_name \<noteq> [] then game_name else S ''N/A''));
                            link = safe_html (PyStr (if page_link \<noteq> [] then page_link else S ''#''));
                            description = safe_html (py_get first (S ''Description''))
                        in Inr \<lparr> img = image,
                                 title_cell = S ''<a href="'' @ link @ S ''" target="_blank">''
                                            @ title @ suffix count @ S ''</a>''
                                            @ details_html description,
                                 author = safe_html (py_get first (S ''Author'')),
                                 category = make_chips (py_get first (S ''Category'')),
                                 genre = make_chips (py_get first (S ''Genre'')),
                                 tags = make_chips (py_get first (S ''Tags'')),
                                 price = safe_text (py_get first (S ''Price'')) \<rparr>)))))\<close>

definition row_html :: "cells \<Rightarrow> pystr" where
  "row_html c =
     rstrip (S ''\<newline>        <tr>\<newline>          <td>'' @ img c
          @ S ''</td>\<newline>          <td>'' @ title_cell c
          @ S ''</td>\<newline>          <td>'' @ author c
          @ S ''</td>\<newline>          <td>'' @ category c
          @ S ''</td>\<newline>          <td>'' @ genre c
          @ S ''</td>\<newline>          <td>'' @ tags c
          @ S ''</td>\<newline>          <td>'' @ price c
          @ S ''</td>\<newline>        </tr>\<newline>        '')"

fun render_all :: "assets \<Rightarrow> (pystr \<Rightarrow> error + bool) \<Rightarrow> groups \<Rightarrow> error + pystr list" where
  "render_all lib fs [] = Inr []"
| "render_all lib fs (item # items) =
     (case render_cells lib fs item of
        Inl e \<Rightarrow> Inl e
      | Inr c \<Rightarrow>
          (case render_all lib fs items of
             Inl e \<Rightarrow> Inl e
           | Inr rows \<Rightarrow> Inr (row_html c # rows)))"

text \<open>The list \<open>rows\<close> of \<open>build_rows\<close> just before the final join.\<close>

definition build_rows_list ::
  "assets \<Rightarrow> (pystr \<Rightarrow> error + bool) \<Rightarrow> csv_record list \<Rightarrow> error + pystr list" where
  "build_rows_list lib fs recs =
     (case sorted_groups recs of
        Inl e \<Rightarrow> Inl e
      | Inr gs \<Rightarrow> render_all lib fs gs)"

text \<open>
  \<open>build_rows(csv_path)\<close>. Its argument here is what reading the file gives: the error
  raised by opening, decoding or tokenising it, or the rows of \<open>csv.reader\<close>.
\<close>

definition build_rows ::
  "assets \<Rightarrow> (pystr \<Rightarrow> error + bool) \<Rightarrow> error + pystr list list \<Rightarrow> error + pystr" where
  "build_rows lib fs file =
     (case file of
        Inl e \<Rightarrow> Inl e
      | Inr csv_rows \<Rightarrow>
          (case build_rows_list lib fs (dict_reader csv_rows) of
             Inl e \<Rightarrow> Inl e
           | Inr rows \<Rightarrow> Inr (join_str [10] rows)))"

section \<open>The run\<close>

text \<open>
  The world of one run. What the run reads: the input file, the answers of the file system
  while the rows are built, whether \<open>open(mode='w')\<close> on the output path succeeds, what a
  write of a given text does, and whether \<open>print\<close> succeeds. What the run changes: the
  content of the output file (\<open>None\<close> when it does not exist) and the lines printed.

  \<open>OUTPUT_PATH.write_text(html_content)\<close> opens the file for writing, which empties it,
  and then writes. The write can fail on the way (a full disk, a lost device): \<open>write_fails\<close>
  gives, for the text to be written, \<open>None\<close> when the write goes through and otherwise
  the content the failed write leaves in the file. Only after the write does \<open>main\<close> print
  its message, and \<open>print\<close> raises when the stream cannot take it (an output encoding
  without U+2705, a closed stream); nothing is printed then.
\<close>

record world =
  csv_file :: "error + pystr list list"
  path_exists :: "pystr \<Rightarrow> error + bool"
  output_writable :: bool
  write_fails :: "pystr \<Rightarrow> pystr option"
  stdout_accepts :: bool
  output_file :: "pystr option"
  stdout :: "pystr list"

definition main :: "assets \<Rightarrow> world \<Rightarrow> error option \<times> world" where
  "main lib w =
     (case build_rows lib (path_exists w) (csv_file w) of
        Inl e \<Rightarrow> (Some e, w)
      | Inr rows \<Rightarrow>
          (let html_content = HTML_HEADER lib @ rows @ HTML_FOOTER lib in
           if \<not> output_writable w then (Some OutputError, w)
           else
             (case write_fails w html_content of
                Some partial \<Rightarrow> (Some OutputError, w\<lparr> output_file := Some partial \<rparr>)
              | None \<Rightarrow>
                  if stdout_accepts w
                  then (None, w\<lparr> output_file := Some html_content,
                                 stdout := stdout w
                                   @ [9989 # S '' Interactive catalog written to itch_catalog.html''] \<rparr>)
                  else (Some UnicodeEncodeError, w\<lparr> output_file := Some html_content \<rparr>))))"

section \<open>Notions used in the statements\<close>

text \<open>
  The keys of the records whose key can be computed, in input order, and the records
  that have a given key, in input order: the group of that key as the specification
  describes it.
\<close>

fun group_keys :: "csv_record list \<Rightarrow> group_key list" where
  "group_keys [] = []"
| "group_keys (r # rs) =
     (case group_key r of Inl e \<Rightarrow> group_keys rs | Inr k \<Rightarrow> k # group_keys rs)"

definition members :: "group_key \<Rightarrow> csv_record list \<Rightarrow> csv_record list" where
  "members k recs = filter (\<lambda>r. group_key r = Inr k) recs"

text \<open>
  The invariant of the grouping loop after the records \<open>seen\<close>: the dictionary has one
  entry per key, and the entry of a key holds the records seen with that key.
\<close>

definition grouped :: "groups \<Rightarrow> csv_record list \<Rightarrow> bool" where
  "grouped g seen \<longleftrightarrow>
     distinct (map fst g)
     \<and> (\<forall>k. map_of g k = (if members k seen = [] then None else Some (members k seen)))"


text \<open>
  Concrete values for the parameters, used where a statement is evaluated on an example.
  The examples contain no percent sign, so the decoder is never called.
\<close>

definition example_assets :: assets where
  "example_assets =
     \<lparr> HTML_HEADER = S ''<table>'', HTML_FOOTER = S ''</table>'', percent_decode = (\<lambda>s. s) \<rparr>"

text \<open>
  An example world: an input file with the header \<open>Game Name\<close> and the one row \<open>A\<close>, no
  path that exists, an output file that can be written and does not exist yet, and a
  stream that takes the message. And a write that fails after seven characters.
\<close>

definition no_thumbnails :: "pystr \<Rightarrow> error + bool" where
  "no_thumbnails p = Inr False"

definition write_goes_through :: "pystr \<Rightarrow> pystr option" where
  "write_goes_through text = None"

definition write_stops_at_7 :: "pystr \<Rightarrow> pystr option" where
  "write_stops_at_7 text = Some (take 7 text)"

definition example_world :: world where
  "example_world =
     \<lparr> csv_file = Inr [[S ''Game Name''], [S ''A'']], path_exists = no_thumbnails,
       output_writable = True, write_fails = write_goes_through, stdout_accepts = True,
       output_file = None, stdout = [] \<rparr>"

section \<open>Strings\<close>

lemma rstrip_tail:
  assumes "\<forall>x\<in>set ws. is_space x" and "\<not> is_space c"
  shows "rstrip (xs @ ys @ c # ws) = xs @ ys @ [c]"
proof -
  have "rev (xs @ ys @ c # ws) = rev ws @ c # rev (xs @ ys)"
    by simp
  moreover have "dropWhile is_space (rev ws @ c # rev (xs @ ys)) = c # rev (xs @ ys)"
    using assms by (simp add: dropWhile_append)
  ultimately show ?thesis
    by (simp add: rstrip_def)
qed

text \<open>The final \<open>rstrip()\<close> of the row template removes exactly the last line break and indentation.\<close>

lemma row_html_eq:
  "row_html c =
     S ''\<newline>        <tr>\<newline>          <td>'' @ img c
          @ S ''</td>\<newline>          <td>'' @ title_cell c
          @ S ''</td>\<newline>          <td>'' @ author c
          @ S ''</td>\<newline>          <td>'' @ category c
          @ S ''</td>\<newline>          <td>'' @ genre c
          @ S ''</td>\<newline>          <td>'' @ tags c
          @ S ''</td>\<newline>          <td>'' @ price c
          @ S ''</td>\<newline>        </tr>''"
proof -
  define P where "P = S ''\<newline>        <tr>\<newline>          <td>'' @ img c
          @ S ''</td>\<newline>          <td>'' @ title_cell c
          @ S ''</td>\<newline>          <td>'' @ author c
          @ S ''</td>\<newline>          <td>'' @ category c
          @ S ''</td>\<newline>          <td>'' @ genre c
          @ S ''</td>\<newline>          <td>'' @ tags c
          @ S ''</td>\<newline>          <td>'' @ price c"
  have sp: "\<forall>x\<in>set (S ''\<newline>        ''). is_space x"
    by (simp add: S_def is_space_def)
  have ns: "\<not> is_space 62"
    by (simp add: is_space_def)
  have tail: "S ''</td>\<newline>        </tr>\<newline>        ''
      = S ''</td>\<newline>        </tr'' @ 62 # S ''\<newline>        ''"
    by (simp add: S_def)
  have tail': "S ''</td>\<newline>        </tr>'' = S ''</td>\<newline>        </tr'' @ [62]"
    by (simp add: S_def)
  have "row_html c = rstrip (P @ S ''</td>\<newline>        </tr>\<newline>        '')"
    by (simp add: row_html_def P_def)
  also have "\<dots> = P @ S ''</td>\<newline>        </tr'' @ [62]"
    unfolding tail by (rule rstrip_tail[OF sp ns])
  also have "\<dots> = P @ S ''</td>\<newline>        </tr>''"
    unfolding tail' ..
  finally show ?thesis
    by (simp add: P_def)
qed

text \<open>The facts that evaluate the model on a concrete input.\<close>

lemmas eval_defs = S_def is_space_def rstrip_def strip_def replace_def html_escape_def
  or_empty_def py_get_def py_strip_def unquote_def safe_text_def safe_html_def chip_def
  make_chips_def make_record_def dict_reader_def group_key_def sorted_groups_def
  suffix_def details_html_def render_cells_def row_html_eq build_rows_list_def
  build_rows_def main_def example_assets_def members_def Let_def

section \<open>Grouping\<close>

lemma set_group_keys: "set (group_keys recs) = {k. \<exists>r\<in>set recs. group_key r = Inr k}"
  by (induction recs) (auto split: sum.splits)

lemma group_keys_append: "group_keys (xs @ ys) = group_keys xs @ group_keys ys"
  by (induction xs) (auto split: sum.splits)

lemma members_append: "members k (xs @ ys) = members k xs @ members k ys"
  by (simp add: members_def)

lemma map_of_groups_append:
  "map_of (groups_append k r g)
     = (map_of g)(k \<mapsto> (case map_of g k of None \<Rightarrow> [r] | Some rs \<Rightarrow> rs @ [r]))"
proof (induction g)
  case Nil
  then show ?case by simp
next
  case (Cons a g)
  obtain k' rs where a: "a = (k', rs)" by (cases a)
  show ?case using Cons by (auto simp: a)
qed

lemma keys_groups_append:
  "set (map fst (groups_append k r g)) = insert k (set (map fst g))"
proof (induction g)
  case Nil
  then show ?case by simp
next
  case (Cons a g)
  obtain k' rs where a: "a = (k', rs)" by (cases a)
  show ?case using Cons by (auto simp: a)
qed

lemma distinct_groups_append:
  "distinct (map fst g) \<Longrightarrow> distinct (map fst (groups_append k r g))"
proof (induction g)
  case Nil
  then show ?case by simp
next
  case (Cons a g)
  obtain k' rs where a: "a = (k', rs)" by (cases a)
  have "set (map fst (groups_append k r g)) = insert k (set (map fst g))"
    by (rule keys_groups_append)
  with Cons show ?case by (simp add: a)
qed

lemma members_snoc:
  "members k (seen @ [r]) = members k seen @ (if group_key r = Inr k then [r] else [])"
  by (simp add: members_def)

lemma groupedD1: "grouped g seen \<Longrightarrow> distinct (map fst g)"
  unfolding grouped_def by blast

lemma groupedD2:
  "grouped g seen \<Longrightarrow> map_of g k = (if members k seen = [] then None else Some (members k seen))"
  unfolding grouped_def by blast

lemma groupedI:
  "distinct (map fst g) \<Longrightarrow>
   (\<And>k. map_of g k = (if members k seen = [] then None else Some (members k seen))) \<Longrightarrow>
   grouped g seen"
  unfolding grouped_def by blast

lemma grouped_step:
  assumes "grouped g seen" and "group_key r = Inr k"
  shows "grouped (groups_append k r g) (seen @ [r])"
proof (rule groupedI)
  show "distinct (map fst (groups_append k r g))"
    by (rule distinct_groups_append[OF groupedD1[OF assms(1)]])
next
  fix k'
  show "map_of (groups_append k r g) k'
      = (if members k' (seen @ [r]) = [] then None else Some (members k' (seen @ [r])))"
    unfolding map_of_groups_append members_snoc groupedD2[OF assms(1)]
    using assms(2) by simp
qed

lemma members_empty_iff: "members k recs = [] \<longleftrightarrow> k \<notin> set (group_keys recs)"
  by (auto simp: members_def set_group_keys filter_empty_conv)

lemma grouped_keys:
  assumes "grouped g seen"
  shows "set (map fst g) = set (group_keys seen)"
proof -
  have "k \<in> set (map fst g) \<longleftrightarrow> k \<in> set (group_keys seen)" for k
  proof -
    have "k \<in> set (map fst g) \<longleftrightarrow> map_of g k \<noteq> None"
      using map_of_eq_None_iff[of g k] by simp
    also have "\<dots> \<longleftrightarrow> members k seen \<noteq> []"
      unfolding groupedD2[OF assms] by simp
    finally show ?thesis by (simp add: members_empty_iff)
  qed
  then show ?thesis by blast
qed

lemma grouped_members:
  assumes "grouped g seen" and "item \<in> set g"
  shows "snd item = members (fst item) seen"
proof -
  have "(fst item, snd item) \<in> set g" using assms(2) by simp
  then have "map_of g (fst item) = Some (snd item)"
    using map_of_is_SomeI[OF groupedD1[OF assms(1)]] by blast
  then show ?thesis
    unfolding groupedD2[OF assms(1)] by (simp split: if_splits)
qed

lemma read_group_grouped:
  "read_group recs g = Inr g' \<Longrightarrow> grouped g seen \<Longrightarrow> grouped g' (seen @ recs)"
proof (induction recs arbitrary: g seen)
  case Nil
  then show ?case by simp
next
  case (Cons r recs)
  from Cons.prems(1) obtain k where k: "group_key r = Inr k"
    and rg: "read_group recs (groups_append k r g) = Inr g'"
    by (auto split: sum.splits)
  have "grouped g' ((seen @ [r]) @ recs)"
    by (rule Cons.IH[OF rg grouped_step[OF Cons.prems(2) k]])
  then show ?case by simp
qed

lemma sorted_groups_char:
  assumes "sorted_groups recs = Inr gs"
  shows "gs = map (\<lambda>k. (k, members k recs)) (sorted_list_of_set (set (group_keys recs)))"
proof -
  from assms obtain g where g: "read_group recs [] = Inr g" and gs: "gs = sort_key fst g"
    by (auto simp: sorted_groups_def split: sum.splits)
  have "grouped [] []" by (simp add: grouped_def members_def)
  from read_group_grouped[OF g this] have gr: "grouped g recs" by simp
  have d: "distinct (map fst g)" by (rule groupedD1[OF gr])
  have "sorted (map fst gs)" by (simp add: gs)
  moreover have "distinct (map fst gs)"
    using d by (simp add: gs distinct_map)
  moreover have "set (map fst gs) = set (group_keys recs)"
    using grouped_keys[OF gr] by (simp add: gs)
  ultimately have keys: "map fst gs = sorted_list_of_set (set (group_keys recs))"
    by (metis sorted_list_of_set.idem_if_sorted_distinct)
  have "\<forall>item\<in>set gs. (fst item, members (fst item) recs) = item"
    using grouped_members[OF gr] by (simp add: gs prod_eq_iff)
  then have "map (\<lambda>k. (k, members k recs)) (map fst gs) = gs"
    by (simp add: map_idI)
  then show ?thesis using keys by simp
qed

lemma read_group_total:
  "(\<exists>g'. read_group recs g = Inr g') \<longleftrightarrow> (\<forall>r\<in>set recs. \<exists>k. group_key r = Inr k)"
  by (induction recs arbitrary: g) (auto split: sum.splits)


section \<open>Rendering the groups\<close>

lemma render_all_Inr:
  "render_all lib fs gs = Inr rows \<longleftrightarrow>
     list_all2 (\<lambda>item row. \<exists>c. render_cells lib fs item = Inr c \<and> row = row_html c) gs rows"
proof (induction gs arbitrary: rows)
  case Nil
  then show ?case by auto
next
  case (Cons item gs)
  show ?case
    by (cases rows) (auto simp flip: Cons.IH split: sum.splits)
qed

lemma render_all_cong:
  "map (render_cells lib fs) gs = map (render_cells lib fs) gs' \<Longrightarrow>
     render_all lib fs gs = render_all lib fs gs'"
proof (induction gs arbitrary: gs')
  case Nil
  then show ?case by simp
next
  case (Cons item gs)
  then obtain item' gs0 where gs': "gs' = item' # gs0" by (cases gs') auto
  with Cons.prems have hd_eq: "render_cells lib fs item = render_cells lib fs item'"
    and tl_eq: "map (render_cells lib fs) gs = map (render_cells lib fs) gs0"
    by simp_all
  have "render_all lib fs gs = render_all lib fs gs0"
    by (rule Cons.IH[OF tl_eq])
  then show ?case by (simp add: gs' hd_eq split: sum.splits)
qed

lemma render_cells_cong:
  assumes "length rs = length rs'" and "rs \<noteq> [] \<Longrightarrow> hd rs = hd rs'"
  shows "render_cells lib fs (k, rs) = render_cells lib fs (k, rs')"
proof (cases rs)
  case Nil
  with assms show ?thesis by simp
next
  case (Cons first rest)
  with assms obtain rest' where "rs' = first # rest'" "length rest' = length rest"
    by (cases rs') auto
  with Cons show ?thesis
    by (simp add: render_cells_def Let_def split: prod.splits sum.splits)
qed

lemma render_cells_title:
  assumes "render_cells lib fs (k, rs) = Inr c"
  shows "rs \<noteq> [] \<and>
     title_cell c = S ''<a href=\"'' @ html_escape (if snd k \<noteq> [] then snd k else S ''#'')
        @ S ''\" target=\"_blank\">'' @ html_escape (if fst k \<noteq> [] then fst k else S ''N/A'')
        @ suffix (length rs) @ S ''</a>''
        @ details_html (safe_html (py_get (hd rs) (S ''Description'')))"
proof (cases rs)
  case Nil
  with assms show ?thesis by (simp add: render_cells_def split: prod.splits)
next
  case (Cons first rest)
  obtain n l where k: "k = (n, l)" by (cases k)
  from assms show ?thesis
    unfolding Cons k render_cells_def
    by (auto simp: Let_def safe_html_def or_empty_def split: sum.splits)
qed

lemma read_group_error_cong:
  "map group_key recs = map group_key recs' \<Longrightarrow>
     read_group recs g = Inl e \<longleftrightarrow> read_group recs' g' = Inl e"
proof (induction recs arbitrary: recs' g g')
  case Nil
  then show ?case by simp
next
  case (Cons r recs)
  then obtain r' rest where recs': "recs' = r' # rest" by (cases recs') auto
  with Cons.prems have k: "group_key r = group_key r'"
    and m: "map group_key recs = map group_key rest" by simp_all
  show ?case
    using Cons.IH[OF m] by (simp add: recs' k split: sum.splits)
qed

lemma group_keys_cong:
  "map group_key recs = map group_key recs' \<Longrightarrow> group_keys recs = group_keys recs'"
proof (induction recs arbitrary: recs')
  case Nil
  then show ?case by simp
next
  case (Cons r recs)
  then obtain r' rest where recs': "recs' = r' # rest" by (cases recs') auto
  with Cons.prems have k: "group_key r = group_key r'"
    and m: "map group_key recs = map group_key rest" by simp_all
  show ?case
    using Cons.IH[OF m] by (simp add: recs' k split: sum.splits)
qed

lemma sorted_groups_error_cong:
  assumes "map group_key recs = map group_key recs'"
  shows "sorted_groups recs = Inl e \<longleftrightarrow> sorted_groups recs' = Inl e"
  using read_group_error_cong[OF assms, of "[]" e "[]"]
  by (auto simp: sorted_groups_def split: sum.splits)

section \<open>Later duplicates\<close>

text \<open>
  Claim C7. A row is computed from the key, the number of records of the group and the
  first record of the group only. So replacing a record whose key already occurred earlier
  in the input by any record with the same key (the later duplicate with other fields
  changed) gives the same result of the run over the records: the same rows, or the same
  error. And two groups with the same key, the same first record and the same number of
  records render the same cells.
\<close>

theorem later_duplicate_ignored:
  assumes key: "group_key r' = group_key r"
    and dup: "\<exists>p\<in>set pre. group_key p = group_key r"
  shows "build_rows_list lib fs (pre @ r' # post) = build_rows_list lib fs (pre @ r # post)
     \<and> (\<forall>k first rest rest'. length rest' = length rest \<longrightarrow>
           render_cells lib fs (k, first # rest') = render_cells lib fs (k, first # rest))"
proof
  let ?a = "pre @ r' # post" and ?b = "pre @ r # post"
  have keys: "map group_key ?a = map group_key ?b"
    using key by simp
  show "build_rows_list lib fs ?a = build_rows_list lib fs ?b"
  proof (cases "sorted_groups ?b")
    case (Inl e)
    then have "sorted_groups ?a = Inl e"
      using sorted_groups_error_cong[OF keys] by simp
    with Inl show ?thesis by (simp add: build_rows_list_def)
  next
    case (Inr gs)
    have "sorted_groups ?a \<noteq> Inl e" for e
      using sorted_groups_error_cong[OF keys, of e] Inr by simp
    then obtain gs' where Inr': "sorted_groups ?a = Inr gs'"
      by (cases "sorted_groups ?a") auto
    let ?ks = "sorted_list_of_set (set (group_keys ?b))"
    have gs: "gs = map (\<lambda>k. (k, members k ?b)) ?ks"
      by (rule sorted_groups_char[OF Inr])
    have gs': "gs' = map (\<lambda>k. (k, members k ?a)) ?ks"
      using sorted_groups_char[OF Inr'] group_keys_cong[OF keys] by simp
    have "render_cells lib fs (k, members k ?a) = render_cells lib fs (k, members k ?b)" for k
    proof (rule render_cells_cong)
      show "length (members k ?a) = length (members k ?b)"
        using key by (simp add: members_def)
      show "hd (members k ?a) = hd (members k ?b)"
      proof (cases "group_key r = Inr k")
        case True
        with dup have "members k pre \<noteq> []"
          by (auto simp: members_def filter_empty_conv)
        then show ?thesis by (simp add: members_def)
      next
        case False
        with key show ?thesis by (simp add: members_def)
      qed
    qed
    then have "map (render_cells lib fs) gs' = map (render_cells lib fs) gs"
      by (simp add: gs gs')
    from render_all_cong[OF this] show ?thesis
      by (simp add: build_rows_list_def Inr Inr')
  qed
next
  show "\<forall>k first rest rest'. length rest' = length rest \<longrightarrow>
      render_cells lib fs (k, first # rest') = render_cells lib fs (k, first # rest)"
    by (simp add: render_cells_cong)
qed

theorem later_duplicate_ignored_witness:
  "group_key (make_record [S ''Game Name'', S ''Price''] [S '' A'', S ''9''])
     = group_key (make_record [S ''Game Name'', S ''Price''] [S ''A '', S ''<b>''])
   \<and> (\<exists>p\<in>set [make_record [S ''Game Name'', S ''Price''] [S ''A'', S ''1'']].
         group_key p = group_key (make_record [S ''Game Name'', S ''Price''] [S ''A '', S ''<b>'']))
   \<and> build_rows_list example_assets (\<lambda>p. Inr False)
        ([make_record [S ''Game Name'', S ''Price''] [S ''A'', S ''1'']]
          @ make_record [S ''Game Name'', S ''Price''] [S '' A'', S ''9''] # [])
     = build_rows_list example_assets (\<lambda>p. Inr False)
        ([make_record [S ''Game Name'', S ''Price''] [S ''A'', S ''1'']]
          @ make_record [S ''Game Name'', S ''Price''] [S ''A '', S ''<b>''] # [])"
proof -
  have k: "group_key (make_record [S ''Game Name'', S ''Price''] [S '' A'', S ''9''])
     = group_key (make_record [S ''Game Name'', S ''Price''] [S ''A '', S ''<b>''])"
    by (simp add: eval_defs)
  have d: "\<exists>p\<in>set [make_record [S ''Game Name'', S ''Price''] [S ''A'', S ''1'']].
         group_key p = group_key (make_record [S ''Game Name'', S ''Price''] [S ''A '', S ''<b>''])"
    by (simp add: eval_defs)
  from later_duplicate_ignored[OF k d, of example_assets "\<lambda>p. Inr False" "[]"] k d
  show ?thesis by blast
qed

section \<open>Runs that return\<close>

text \<open>
  The loop over the records returns rows whenever every record has a string (not \<open>None\<close>)
  under the two key columns and under \<open>Thumbnail\<close> and the file system answers every
  question about a path; columns that are absent altogether are no obstacle.
\<close>

lemma render_all_total:
  "(\<forall>item\<in>set gs. \<exists>c. render_cells lib fs item = Inr c) \<Longrightarrow>
     \<exists>rows. render_all lib fs gs = Inr rows"
  by (induction gs) auto

lemma render_cells_total:
  assumes "rs \<noteq> []" and "py_get (hd rs) (S ''Thumbnail'') \<noteq> PyNone"
    and "\<forall>p. \<exists>b. fs p = Inr b"
  shows "\<exists>c. render_cells lib fs (k, rs) = Inr c"
proof -
  obtain first rest where rs: "rs = first # rest"
    using assms(1) by (cases rs) auto
  obtain n l where k: "k = (n, l)" by (cases k)
  obtain s where s: "py_get first (S ''Thumbnail'') = PyStr s"
    using assms(2) by (cases "py_get first (S ''Thumbnail'')") (auto simp: rs)
  define u where "u = (if 37 \<notin> set s then s else percent_decode lib s)"
  have un: "unquote (percent_decode lib) (py_get first (S ''Thumbnail'')) = Inr u"
    by (simp add: s unquote_def u_def)
  obtain b where b: "(if u \<noteq> [] then fs u else Inr False) = Inr b"
    using assms(3) by (cases "u = []") auto
  show ?thesis
    unfolding rs k render_cells_def by (simp add: un b Let_def)
qed

lemma build_rows_list_total:
  assumes keys: "\<forall>r\<in>set recs. \<exists>k. group_key r = Inr k"
    and thumbs: "\<forall>r\<in>set recs. py_get r (S ''Thumbnail'') \<noteq> PyNone"
    and answers: "\<forall>p. \<exists>b. fs p = Inr b"
  shows "\<exists>rows. build_rows_list lib fs recs = Inr rows"
proof -
  from keys have "\<exists>g. read_group recs [] = Inr g"
    by (simp add: read_group_total)
  then obtain gs where gs: "sorted_groups recs = Inr gs"
    by (auto simp: sorted_groups_def)
  have "\<exists>c. render_cells lib fs item = Inr c" if "item \<in> set gs" for item
  proof -
    from that sorted_groups_char[OF gs] obtain k
      where k: "k \<in> set (group_keys recs)" and item: "item = (k, members k recs)"
      by auto
    have ne: "members k recs \<noteq> []"
      using k by (simp add: members_empty_iff)
    then have "hd (members k recs) \<in> set (members k recs)"
      by simp
    then have "hd (members k recs) \<in> set recs"
      by (simp add: members_def)
    with thumbs have "py_get (hd (members k recs)) (S ''Thumbnail'') \<noteq> PyNone"
      by blast
    from render_cells_total[OF ne this answers] show ?thesis
      by (simp add: item)
  qed
  then have "\<exists>rows. render_all lib fs gs = Inr rows"
    by (simp add: render_all_total)
  then show ?thesis
    by (simp add: build_rows_list_def gs)
qed

lemmas key_defs = group_key_def py_get_def py_strip_def strip_def rstrip_def is_space_def
  S_def make_record_def


lemma map_sum_eq_InrD: "map_sum f g x = Inr y \<Longrightarrow> \<exists>z. x = Inr z \<and> g z = y"
  by (cases x) auto


lemma suffix_three: "suffix 3 = S '' (3)''"
  by (simp add: suffix_def str_nat.simps S_def)


section \<open>One row per key\<close>

text \<open>
  Claim C4. When the loop over the records returns rows, there are as many rows as distinct
  trimmed (Game Name, Game Page Link) pairs among the records. The rows correspond one to one
  to the distinct keys: the row of a key is rendered from the records having that key, and
  its title cell is the link with the escaped name followed by \<open>suffix n\<close>, where \<open>n\<close> is the
  number of records with that key; \<open>suffix 1\<close> is empty, \<open>suffix 3\<close> is \<open>" (3)"\<close>, and for
  every \<open>n > 1\<close> the suffix is \<open>" (" + str(n) + ")"\<close>.
\<close>

theorem one_row_per_key:
  assumes "build_rows_list lib fs recs = Inr rows"
  shows "length rows = card (set (group_keys recs))
     \<and> (\<exists>ks. distinct ks \<and> set ks = set (group_keys recs) \<and>
           list_all2 (\<lambda>k row. \<exists>c.
               render_cells lib fs (k, members k recs) = Inr c \<and> row = row_html c
             \<and> members k recs \<noteq> []
             \<and> title_cell c =
                 S ''<a href=\"'' @ html_escape (if snd k \<noteq> [] then snd k else S ''#'')
                 @ S ''\" target=\"_blank\">''
                 @ html_escape (if fst k \<noteq> [] then fst k else S ''N/A'')
                 @ suffix (length (members k recs)) @ S ''</a>''
                 @ details_html (safe_html (py_get (hd (members k recs)) (S ''Description''))))
             ks rows)
     \<and> suffix 1 = [] \<and> suffix 3 = S '' (3)''
     \<and> (\<forall>n. 1 < n \<longrightarrow> suffix n = S '' ('' @ str_nat n @ S '')'')"
proof -
  from assms obtain gs where gs: "sorted_groups recs = Inr gs"
    and ra: "render_all lib fs gs = Inr rows"
    by (auto simp: build_rows_list_def split: sum.splits)
  define ks where "ks = sorted_list_of_set (set (group_keys recs))"
  have gs_eq: "gs = map (\<lambda>k. (k, members k recs)) ks"
    unfolding ks_def by (rule sorted_groups_char[OF gs])
  have d: "distinct ks" and s: "set ks = set (group_keys recs)"
    by (simp_all add: ks_def)
  have "list_all2 (\<lambda>item row. \<exists>c. render_cells lib fs item = Inr c \<and> row = row_html c) gs rows"
    using ra by (simp add: render_all_Inr)
  then have l2: "list_all2 (\<lambda>k row. \<exists>c. render_cells lib fs (k, members k recs) = Inr c
                       \<and> row = row_html c) ks rows"
    by (simp add: gs_eq list_all2_map1)
  have "list_all2 (\<lambda>k row. \<exists>c.
               render_cells lib fs (k, members k recs) = Inr c \<and> row = row_html c
             \<and> members k recs \<noteq> []
             \<and> title_cell c =
                 S ''<a href=\"'' @ html_escape (if snd k \<noteq> [] then snd k else S ''#'')
                 @ S ''\" target=\"_blank\">''
                 @ html_escape (if fst k \<noteq> [] then fst k else S ''N/A'')
                 @ suffix (length (members k recs)) @ S ''</a>''
                 @ details_html (safe_html (py_get (hd (members k recs)) (S ''Description''))))
             ks rows"
    by (rule list_all2_mono[OF l2]) (use render_cells_title in blast)
  moreover have "length rows = card (set (group_keys recs))"
    using list_all2_lengthD[OF l2] distinct_card[OF d] s by simp
  moreover have "suffix 1 = []" by (simp add: suffix_def)
  moreover have "\<forall>n. 1 < n \<longrightarrow> suffix n = S '' ('' @ str_nat n @ S '')''"
    by (simp add: suffix_def)
  ultimately show ?thesis
    using d s suffix_three by blast
qed

theorem one_row_per_key_witness:
  "\<exists>rows. build_rows_list example_assets (\<lambda>p. Inr False)
       [make_record [S ''Game Name''] [S ''b''],
        make_record [S ''Game Name''] [S ''a''],
        make_record [S ''Game Name''] [S '' b '']] = Inr rows
     \<and> length rows = 2"
proof -
  let ?recs = "[make_record [S ''Game Name''] [S ''b''],
        make_record [S ''Game Name''] [S ''a''],
        make_record [S ''Game Name''] [S '' b '']]"
  have "\<forall>r\<in>set ?recs. \<exists>k. group_key r = Inr k"
    by (simp add: key_defs)
  moreover have "\<forall>r\<in>set ?recs. py_get r (S ''Thumbnail'') \<noteq> PyNone"
    by (simp add: key_defs)
  moreover have "\<forall>p. \<exists>b. (\<lambda>p. Inr False :: error + bool) p = Inr b"
    by blast
  ultimately obtain rows
    where r: "build_rows_list example_assets (\<lambda>p. Inr False) ?recs = Inr rows"
    using build_rows_list_total[of ?recs "\<lambda>p. Inr False" example_assets] by blast
  have gk: "group_keys ?recs = [([98], []), ([97], []), ([98], [])]"
    by (simp add: key_defs)
  have c: "card (set (group_keys ?recs)) = 2"
    unfolding gk by (simp add: card_insert_if)
  have "length rows = card (set (group_keys ?recs))"
    using one_row_per_key[OF r] by (rule conjunct1)
  with c r show ?thesis by simp
qed

section \<open>Order of the rows\<close>

text \<open>
  Claim C5. The groups are rendered in strictly ascending order of their keys, names compared
  first and links second, strings compared by code point (so case-sensitively); the rows
  are the renderings of the groups in that order; and the sequence of keys depends only on
  the set of records, not on their order in the input.
\<close>

theorem rows_in_key_order:
  assumes "sorted_groups recs = Inr gs"
  shows "sorted_wrt (\<lambda>a b. fst a < fst b \<or> (fst a = fst b \<and> snd a < snd b)) (map fst gs)
     \<and> set (map fst gs) = set (group_keys recs)
     \<and> build_rows_list lib fs recs = render_all lib fs gs
     \<and> (\<forall>rows. render_all lib fs gs = Inr rows \<longrightarrow>
           list_all2 (\<lambda>item row. \<exists>c. render_cells lib fs item = Inr c \<and> row = row_html c) gs rows)
     \<and> (\<forall>recs'. set recs' = set recs \<longrightarrow>
           (\<exists>gs'. sorted_groups recs' = Inr gs' \<and> map fst gs' = map fst gs))"
proof -
  have keys: "map fst gs = sorted_list_of_set (set (group_keys recs))"
    using sorted_groups_char[OF assms] by (simp add: comp_def)
  have "sorted_wrt (<) (map fst gs)"
    unfolding keys by (simp add: strict_sorted_iff)
  then have 1: "sorted_wrt (\<lambda>a b. fst a < fst b \<or> (fst a = fst b \<and> snd a < snd b)) (map fst gs)"
    by (rule sorted_wrt_mono_rel[rotated]) (auto simp: less_prod_def)
  have 2: "set (map fst gs) = set (group_keys recs)"
    unfolding keys by simp
  have 3: "build_rows_list lib fs recs = render_all lib fs gs"
    by (simp add: build_rows_list_def assms)
  have 4: "\<forall>rows. render_all lib fs gs = Inr rows \<longrightarrow>
           list_all2 (\<lambda>item row. \<exists>c. render_cells lib fs item = Inr c \<and> row = row_html c) gs rows"
    by (simp add: render_all_Inr)
  have 5: "\<exists>gs'. sorted_groups recs' = Inr gs' \<and> map fst gs' = map fst gs"
    if same: "set recs' = set recs" for recs'
  proof -
    from assms have "\<exists>g. read_group recs [] = Inr g"
      by (auto simp: sorted_groups_def split: sum.splits)
    then have "\<forall>r\<in>set recs. \<exists>k. group_key r = Inr k"
      by (simp add: read_group_total)
    then have "\<exists>g. read_group recs' [] = Inr g"
      using same by (simp add: read_group_total)
    then obtain gs' where gs': "sorted_groups recs' = Inr gs'"
      by (auto simp: sorted_groups_def)
    have "set (group_keys recs') = set (group_keys recs)"
      using same by (simp add: set_group_keys)
    then have "map fst gs' = map fst gs"
      using sorted_groups_char[OF gs'] keys by (simp add: comp_def)
    with gs' show ?thesis by blast
  qed
  from 1 2 3 4 5 show ?thesis by blast
qed

theorem rows_in_key_order_witness:
  "\<exists>gs. sorted_groups [make_record [S ''Game Name'', S ''Game Page Link''] [S ''a'', S ''y''],
                       make_record [S ''Game Name'', S ''Game Page Link''] [S ''a'', S ''x''],
                       make_record [S ''Game Name'', S ''Game Page Link''] [S ''B'', S ''z'']] = Inr gs
     \<and> map fst gs = [(S ''B'', S ''z''), (S ''a'', S ''x''), (S ''a'', S ''y'')]
     \<and> sorted_wrt (\<lambda>a b. fst a < fst b \<or> (fst a = fst b \<and> snd a < snd b)) (map fst gs)"
proof -
  let ?recs = "[make_record [S ''Game Name'', S ''Game Page Link''] [S ''a'', S ''y''],
                make_record [S ''Game Name'', S ''Game Page Link''] [S ''a'', S ''x''],
                make_record [S ''Game Name'', S ''Game Page Link''] [S ''B'', S ''z'']]"
  have e: "map_sum id (map fst) (sorted_groups ?recs)
      = Inr [(S ''B'', S ''z''), (S ''a'', S ''x''), (S ''a'', S ''y'')]"
    by (simp add: sorted_groups_def key_defs)
  from map_sum_eq_InrD[OF e] obtain gs where gk: "sorted_groups ?recs = Inr gs
    \<and> map fst gs = [(S ''B'', S ''z''), (S ''a'', S ''x''), (S ''a'', S ''y'')]"
    by (rule exE)
  from gk have g: "sorted_groups ?recs = Inr gs"
    by (rule conjunct1)
  from gk have k: "map fst gs = [(S ''B'', S ''z''), (S ''a'', S ''x''), (S ''a'', S ''y'')]"
    by (rule conjunct2)
  have s: "sorted_wrt (\<lambda>a b. fst a < fst b \<or> (fst a = fst b \<and> snd a < snd b)) (map fst gs)"
    using rows_in_key_order[OF g, of example_assets "\<lambda>p. Inr False"] by (rule conjunct1)
  from g k s show ?thesis by (intro exI[of _ gs] conjI)
qed

section \<open>The run as a whole\<close>

lemma main_cases:
  "main lib w =
     (case build_rows lib (path_exists w) (csv_file w) of
        Inl e \<Rightarrow> (Some e, w)
      | Inr doc \<Rightarrow>
          if \<not> output_writable w then (Some OutputError, w)
          else
            (case write_fails w (HTML_HEADER lib @ doc @ HTML_FOOTER lib) of
               Some partial \<Rightarrow> (Some OutputError, w\<lparr> output_file := Some partial \<rparr>)
             | None \<Rightarrow>
                 if stdout_accepts w
                 then (None, w\<lparr> output_file := Some (HTML_HEADER lib @ doc @ HTML_FOOTER lib),
                                stdout := stdout w
                                  @ [9989 # S '' Interactive catalog written to itch_catalog.html''] \<rparr>)
                 else (Some UnicodeEncodeError,
                       w\<lparr> output_file := Some (HTML_HEADER lib @ doc @ HTML_FOOTER lib) \<rparr>)))"
  by (simp add: main_def Let_def split: sum.splits option.splits)

text \<open>The document of the example world: the header, its one row, the footer.\<close>

lemma example_rows:
  "build_rows example_assets no_thumbnails (Inr [[S ''Game Name''], [S ''A'']])
   = Inr (S ''\<newline>        <tr>\<newline>''
        @ S ''          <td>N/A</td>\<newline>''
        @ S ''          <td><a href=\"#\" target=\"_blank\">A</a>''
        @ S ''<details style=\"margin-top:4px;\"><summary style=\"cursor:pointer;\">Description</summary>''
        @ S ''<div style=\"margin-top:6px; white-space:pre-wrap; font-size:0.9em; line-height:1.4;\">''
        @ S ''</div></details></td>\<newline>''
        @ S ''          <td></td>\<newline>''
        @ S ''          <td>N/A</td>\<newline>''
        @ S ''          <td>N/A</td>\<newline>''
        @ S ''          <td>N/A</td>\<newline>''
        @ S ''          <td>N/A</td>\<newline>''
        @ S ''        </tr>'')"
  by (simp add: build_rows_def dict_reader_def build_rows_list_def sorted_groups_def key_defs
      render_cells_def unquote_def row_html_eq safe_html_def safe_text_def make_chips_def
      or_empty_def html_escape_def replace_def details_html_def suffix_def no_thumbnails_def)

text \<open>
  Claim C6, as stated (a run either completes and writes the output, or fails before any
  output is written), fails on the code. In the example world with a write that stops after
  seven characters the run fails and leaves the partial text \<open><table>\<close> in an output file
  that did not exist before; with a stream that does not take the message the run fails
  after the whole document has been written.
\<close>

theorem run_all_or_nothing_counterexample:
  "fst (main example_assets (example_world\<lparr> write_fails := write_stops_at_7 \<rparr>))
     = Some OutputError
   \<and> output_file (snd (main example_assets (example_world\<lparr> write_fails := write_stops_at_7 \<rparr>)))
     = Some (S ''<table>'')
   \<and> output_file (example_world\<lparr> write_fails := write_stops_at_7 \<rparr>) = None
   \<and> fst (main example_assets (example_world\<lparr> stdout_accepts := False \<rparr>))
     = Some UnicodeEncodeError
   \<and> output_file (snd (main example_assets (example_world\<lparr> stdout_accepts := False \<rparr>)))
     = Some (S ''<table>''
        @ S ''\<newline>        <tr>\<newline>''
        @ S ''          <td>N/A</td>\<newline>''
        @ S ''          <td><a href=\"#\" target=\"_blank\">A</a>''
        @ S ''<details style=\"margin-top:4px;\"><summary style=\"cursor:pointer;\">Description</summary>''
        @ S ''<div style=\"margin-top:6px; white-space:pre-wrap; font-size:0.9em; line-height:1.4;\">''
        @ S ''</div></details></td>\<newline>''
        @ S ''          <td></td>\<newline>''
        @ S ''          <td>N/A</td>\<newline>''
        @ S ''          <td>N/A</td>\<newline>''
        @ S ''          <td>N/A</td>\<newline>''
        @ S ''          <td>N/A</td>\<newline>''
        @ S ''        </tr>''
        @ S ''</table>'')
   \<and> output_file (example_world\<lparr> stdout_accepts := False \<rparr>) = None"
proof -
  have h: "HTML_HEADER example_assets = S ''<table>''"
    and f: "HTML_FOOTER example_assets = S ''</table>''"
    by (simp_all add: example_assets_def)
  have t: "write_stops_at_7 (S ''<table>'' @ rest) = Some (S ''<table>'')" for rest
    by (simp add: write_stops_at_7_def S_def)
  show ?thesis
    unfolding main_cases
    by (simp add: example_world_def example_rows h f t write_goes_through_def)
qed

text \<open>
  Claim C6, amended. A run that fails while the input is read or parsed or while the rows
  are built, and a run that cannot open the output file, ends with that error and leaves
  the world, the output file included, as it was. A run that reports no error has written
  the whole document (header, rows, footer). In every case the output file is afterwards
  what it was before, or the whole document, or, the run failing with an output error, what
  the failed write has left of the document.
\<close>

theorem run_outcomes:
  "(\<forall>e. build_rows lib (path_exists w) (csv_file w) = Inl e \<longrightarrow> main lib w = (Some e, w))
   \<and> (\<forall>e. csv_file w = Inl e \<longrightarrow> main lib w = (Some e, w))
   \<and> (\<not> output_writable w \<longrightarrow> (\<exists>e. main lib w = (Some e, w)))
   \<and> (fst (main lib w) = None \<longrightarrow>
        (\<exists>doc. build_rows lib (path_exists w) (csv_file w) = Inr doc
           \<and> output_file (snd (main lib w)) = Some (HTML_HEADER lib @ doc @ HTML_FOOTER lib)))
   \<and> (output_file (snd (main lib w)) = output_file w
       \<or> (\<exists>doc. build_rows lib (path_exists w) (csv_file w) = Inr doc
             \<and> (output_file (snd (main lib w)) = Some (HTML_HEADER lib @ doc @ HTML_FOOTER lib)
                \<or> (fst (main lib w) = Some OutputError
                    \<and> output_file (snd (main lib w))
                        = write_fails w (HTML_HEADER lib @ doc @ HTML_FOOTER lib)))))"
proof (cases "build_rows lib (path_exists w) (csv_file w)")
  case (Inl e)
  have "csv_file w = Inl e' \<Longrightarrow> e' = e" for e'
    using Inl by (simp add: build_rows_def)
  with Inl show ?thesis
    by (auto simp: main_cases)
next
  case (Inr doc)
  then have ok: "\<And>e. csv_file w \<noteq> Inl e"
    by (auto simp: build_rows_def)
  show ?thesis
  proof (cases "output_writable w")
    case False
    with Inr ok show ?thesis by (simp add: main_cases)
  next
    case True
    show ?thesis
    proof (cases "write_fails w (HTML_HEADER lib @ doc @ HTML_FOOTER lib)")
      case None
      with Inr ok True show ?thesis by (simp add: main_cases)
    next
      case (Some partial)
      with Inr ok True show ?thesis by (simp add: main_cases)
    qed
  qed
qed

theorem run_outcomes_witness:
  "csv_file (example_world\<lparr> csv_file := Inl InputError \<rparr>) = Inl InputError
   \<and> main example_assets (example_world\<lparr> csv_file := Inl InputError \<rparr>)
     = (Some InputError, example_world\<lparr> csv_file := Inl InputError \<rparr>)
   \<and> fst (main example_assets example_world) = None
   \<and> output_file (snd (main example_assets example_world)) \<noteq> None"
proof -
  let ?w = "example_world\<lparr> csv_file := Inl InputError \<rparr>"
  have c: "csv_file ?w = Inl InputError"
    by simp
  have "\<forall>e. csv_file ?w = Inl e \<longrightarrow> main example_assets ?w = (Some e, ?w)"
    by (rule run_outcomes[of example_assets ?w, THEN conjunct2, THEN conjunct1])
  then have 1: "main example_assets ?w = (Some InputError, ?w)"
    using c by (elim allE impE)
  have 2: "fst (main example_assets example_world) = None"
    unfolding main_cases
    by (simp add: example_world_def example_rows write_goes_through_def)
  have "fst (main example_assets example_world) = None \<longrightarrow>
        (\<exists>doc. build_rows example_assets (path_exists example_world) (csv_file example_world)
                  = Inr doc
           \<and> output_file (snd (main example_assets example_world))
               = Some (HTML_HEADER example_assets @ doc @ HTML_FOOTER example_assets))"
    by (rule run_outcomes[of example_assets example_world, THEN conjunct2, THEN conjunct2,
          THEN conjunct2, THEN conjunct1])
  with 2 have 3: "output_file (snd (main example_assets example_world)) \<noteq> None"
    by auto
  from c 1 2 3 show ?thesis by (intro conjI)
qed

section \<open>Determinism\<close>





section \<open>Strings and cells\<close>

lemma dropWhile_all_iff: "(\<forall>x\<in>set (dropWhile P xs). P x) \<longleftrightarrow> (\<forall>x\<in>set xs. P x)"
proof
  assume a: "\<forall>x\<in>set (dropWhile P xs). P x"
  have "dropWhile P xs = []"
  proof (rule ccontr)
    assume ne: "dropWhile P xs \<noteq> []"
    then have "\<not> P (hd (dropWhile P xs))" by (rule hd_dropWhile)
    moreover have "hd (dropWhile P xs) \<in> set (dropWhile P xs)" using ne by simp
    ultimately show False using a by blast
  qed
  then show "\<forall>x\<in>set xs. P x" by (simp add: dropWhile_eq_Nil_conv)
next
  assume "\<forall>x\<in>set xs. P x"
  then show "\<forall>x\<in>set (dropWhile P xs). P x"
    by (meson set_dropWhileD)
qed

lemma strip_eq_Nil_iff: "strip s = [] \<longleftrightarrow> (\<forall>c\<in>set s. is_space c)"
proof -
  have "strip s = [] \<longleftrightarrow> (\<forall>x\<in>set (dropWhile is_space s). is_space x)"
    by (simp add: strip_def rstrip_def dropWhile_eq_Nil_conv)
  then show ?thesis by (simp add: dropWhile_all_iff)
qed

lemma split_comma_pieces: "p \<in> set (split_comma s) \<Longrightarrow> set p \<subseteq> set s - {44}"
proof (induction s arbitrary: p)
  case Nil
  then show ?case by simp
next
  case (Cons x xs)
  show ?case
  proof (cases "x = 44")
    case True
    with Cons show ?thesis by auto
  next
    case False
    show ?thesis
    proof (cases "split_comma xs")
      case Nil
      with Cons.prems False show ?thesis by simp
    next
      case (Cons q qs)
      with Cons.prems False have "p = x # q \<or> p \<in> set qs" by simp
      moreover have "set q \<subseteq> set xs - {44}" using Cons.IH[of q] Cons by simp
      moreover have "p \<in> set qs \<Longrightarrow> set p \<subseteq> set xs - {44}" using Cons.IH[of p] Cons by simp
      ultimately show ?thesis using False by auto
    qed
  qed
qed

lemma replace_eq_Nil_iff: "r \<noteq> [] \<Longrightarrow> replace c r s = [] \<longleftrightarrow> s = []"
  by (cases s) (simp_all add: replace_def)

lemma html_escape_eq_Nil_iff: "html_escape s = [] \<longleftrightarrow> s = []"
proof -
  have ne: "S ''&#x27;'' \<noteq> []" "S ''&quot;'' \<noteq> []" "S ''&gt;'' \<noteq> []" "S ''&lt;'' \<noteq> []"
    "S ''&amp;'' \<noteq> []"
    by (simp_all add: S_def)
  show ?thesis
    unfolding html_escape_def by (simp only: replace_eq_Nil_iff[OF ne(1)]
      replace_eq_Nil_iff[OF ne(2)] replace_eq_Nil_iff[OF ne(3)] replace_eq_Nil_iff[OF ne(4)]
      replace_eq_Nil_iff[OF ne(5)])
qed

lemma join_str_nonempty: "ps \<noteq> [] \<Longrightarrow> hd ps \<noteq> [] \<Longrightarrow> join_str sep ps \<noteq> []"
proof (cases ps)
  case Nil
  then show "ps \<noteq> [] \<Longrightarrow> ?thesis" by simp
next
  case (Cons p qs)
  then show "hd ps \<noteq> [] \<Longrightarrow> ?thesis" by (cases qs) simp_all
qed

lemma NA_nonempty: "S ''N/A'' \<noteq> []"
  by (simp add: S_def)

lemma chip_nonempty: "chip t \<noteq> []"
  by (simp add: chip_def S_def)

lemma chip_eq: "chip t = S ''<a href=\"#\" class=\"filter-chip\">'' @ html_escape t @ S ''</a>''"
  by (simp add: chip_def safe_html_def or_empty_def)

lemma make_chips_nonempty: "make_chips v \<noteq> []"
proof -
  define ts where "ts = map strip (filter (\<lambda>t. strip t \<noteq> []) (split_comma (or_empty v)))"
  have mc: "make_chips v =
      (if or_empty v = [] \<or> strip (or_empty v) = [] then S ''N/A''
       else if ts = [] then S ''N/A'' else join_str (S '' '') (map chip ts))"
    unfolding make_chips_def Let_def ts_def ..
  have "join_str (S '' '') (map chip ts) \<noteq> []" if "ts \<noteq> []"
  proof (rule join_str_nonempty)
    show "map chip ts \<noteq> []" using that by simp
    show "hd (map chip ts) \<noteq> []" using that by (simp add: hd_map chip_nonempty)
  qed
  then show ?thesis
    unfolding mc using NA_nonempty by (simp del: map_map)
qed

lemma safe_text_nonempty: "safe_text v \<noteq> []"
  by (simp add: safe_text_def Let_def NA_nonempty)

lemma pieces_all_space:
  assumes "\<forall>c\<in>set s. is_space c \<or> c = 44"
  shows "filter (\<lambda>t. strip t \<noteq> []) (split_comma s) = []"
proof -
  have "strip p = []" if "p \<in> set (split_comma s)" for p
  proof -
    from split_comma_pieces[OF that] assms have "\<forall>c\<in>set p. is_space c" by auto
    then show ?thesis by (simp add: strip_eq_Nil_iff)
  qed
  then show ?thesis by (simp add: filter_empty_conv)
qed

lemma make_chips_spaces_commas:
  assumes "\<forall>c\<in>set s. is_space c \<or> c = 44"
  shows "make_chips (PyStr s) = S ''N/A''"
  using pieces_all_space[OF assms] by (simp add: make_chips_def or_empty_def Let_def)

lemma make_chips_pieces:
  "make_chips (PyStr s) =
     (let pieces = filter (\<lambda>t. t \<noteq> []) (map strip (split_comma s))
      in if pieces = [] then S ''N/A''
         else join_str (S '' '')
                (map (\<lambda>t. S ''<a href=\"#\" class=\"filter-chip\">'' @ html_escape t @ S ''</a>'')
                   pieces))"
proof -
  have fm: "filter (\<lambda>t. t \<noteq> []) (map strip (split_comma s))
      = map strip (filter (\<lambda>t. strip t \<noteq> []) (split_comma s))"
    by (simp add: filter_map comp_def)
  have ch: "chip = (\<lambda>t. S ''<a href=\"#\" class=\"filter-chip\">'' @ html_escape t @ S ''</a>'')"
    by (rule ext) (rule chip_eq)
  show ?thesis
  proof (cases "s = [] \<or> strip s = []")
    case True
    then have "\<forall>c\<in>set s. is_space c \<or> c = 44"
      by (auto simp: strip_eq_Nil_iff)
    from pieces_all_space[OF this] True show ?thesis
      by (simp add: make_chips_def or_empty_def Let_def fm)
  next
    case False
    then show ?thesis
      unfolding fm ch[symmetric] by (simp add: make_chips_def or_empty_def Let_def)
  qed
qed

lemma render_cells_chips:
  assumes "render_cells lib fs (k, first # rest) = Inr c"
  shows "img c \<noteq> [] \<and> title_cell c \<noteq> []
     \<and> author c = safe_html (py_get first (S ''Author''))
     \<and> category c = make_chips (py_get first (S ''Category''))
     \<and> genre c = make_chips (py_get first (S ''Genre''))
     \<and> tags c = make_chips (py_get first (S ''Tags''))
     \<and> price c = safe_text (py_get first (S ''Price''))"
proof -
  obtain n l where k: "k = (n, l)" by (cases k)
  have a: "S ''<a href=\"'' \<noteq> []" and d: "S ''<div class=\"thumb-wrapper\">'' \<noteq> []"
    by (simp_all add: S_def)
  from assms obtain u where u: "unquote (percent_decode lib) (py_get first (S ''Thumbnail'')) = Inr u"
    unfolding k render_cells_def by (auto split: sum.splits)
  from assms u obtain shown where sh: "(if u \<noteq> [] then fs u else Inr False) = Inr shown"
    unfolding k render_cells_def by (auto simp: Let_def split: sum.splits)
  from assms have c: "c = \<lparr> img = (if shown
                          then S ''<div class=\"thumb-wrapper\">''
                             @ S ''<img class=\"thumb\" src=\"'' @ u @ S ''\">''
                             @ S ''<img class=\"zoomed\" src=\"'' @ u @ S ''\">''
                             @ S ''</div>''
                          else S ''N/A''),
        title_cell = S ''<a href=\"'' @ safe_html (PyStr (if l \<noteq> [] then l else S ''#''))
                   @ S ''\" target=\"_blank\">''
                   @ safe_html (PyStr (if n \<noteq> [] then n else S ''N/A''))
                   @ suffix (length (first # rest)) @ S ''</a>''
                   @ details_html (safe_html (py_get first (S ''Description''))),
        author = safe_html (py_get first (S ''Author'')),
        category = make_chips (py_get first (S ''Category'')),
        genre = make_chips (py_get first (S ''Genre'')),
        tags = make_chips (py_get first (S ''Tags'')),
        price = safe_text (py_get first (S ''Price'')) \<rparr>"
    unfolding k render_cells_def by (simp add: u sh Let_def)
  have "img c \<noteq> []"
    unfolding c using d NA_nonempty by simp
  moreover have "title_cell c \<noteq> []"
    unfolding c using a by simp
  ultimately show ?thesis
    by (simp add: c)
qed

text \<open>
  Claim C8. A Category, Genre or Tags field made of white space and commas only (the empty
  field included, and a missing one) renders the text N/A; the field \<open>Action, Puzzle\<close>
  renders exactly two chips, labelled Action and Puzzle, separated by one space. In general
  the field is split at the commas, the pieces are trimmed, the empty ones dropped, and each
  remaining piece becomes one chip around its HTML-escaped text, the chips joined by a
  space. The three cells of a row are \<open>make_chips\<close> of the first record's three fields.
\<close>

theorem chips_or_na:
  "((\<forall>c\<in>set s. is_space c \<or> c = 44) \<longrightarrow> make_chips (PyStr s) = S ''N/A'')
   \<and> make_chips PyNone = S ''N/A''
   \<and> make_chips (PyStr (S ''Action, Puzzle''))
       = S ''<a href=\"#\" class=\"filter-chip\">Action</a> <a href=\"#\" class=\"filter-chip\">Puzzle</a>''
   \<and> make_chips (PyStr s) =
       (let pieces = filter (\<lambda>t. t \<noteq> []) (map strip (split_comma s))
        in if pieces = [] then S ''N/A''
           else join_str (S '' '')
                  (map (\<lambda>t. S ''<a href=\"#\" class=\"filter-chip\">'' @ html_escape t @ S ''</a>'')
                     pieces))
   \<and> (render_cells lib fs (k, first # rest) = Inr cells \<longrightarrow>
         category cells = make_chips (py_get first (S ''Category''))
       \<and> genre cells = make_chips (py_get first (S ''Genre''))
       \<and> tags cells = make_chips (py_get first (S ''Tags'')))"
proof (intro conjI impI)
  assume "\<forall>c\<in>set s. is_space c \<or> c = 44"
  then show "make_chips (PyStr s) = S ''N/A''"
    by (rule make_chips_spaces_commas)
next
  show "make_chips PyNone = S ''N/A''"
    by (simp add: make_chips_def or_empty_def)
next
  show "make_chips (PyStr (S ''Action, Puzzle''))
       = S ''<a href=\"#\" class=\"filter-chip\">Action</a> <a href=\"#\" class=\"filter-chip\">Puzzle</a>''"
    by (simp add: make_chips_def or_empty_def chip_def safe_html_def html_escape_def replace_def
        strip_def rstrip_def is_space_def S_def)
next
  show "make_chips (PyStr s) =
       (let pieces = filter (\<lambda>t. t \<noteq> []) (map strip (split_comma s))
        in if pieces = [] then S ''N/A''
           else join_str (S '' '')
                  (map (\<lambda>t. S ''<a href=\"#\" class=\"filter-chip\">'' @ html_escape t @ S ''</a>'')
                     pieces))"
    by (rule make_chips_pieces)
next
  assume r: "render_cells lib fs (k, first # rest) = Inr cells"
  from render_cells_chips[OF r]
  show "category cells = make_chips (py_get first (S ''Category''))"
    and "genre cells = make_chips (py_get first (S ''Genre''))"
    and "tags cells = make_chips (py_get first (S ''Tags''))"
    by simp_all
qed

theorem chips_or_na_witness:
  "is_space 32 \<and> make_chips (PyStr (S '' , ,'')) = S ''N/A''"
proof -
  have sp: "is_space 32"
    by (simp add: is_space_def)
  have h: "\<forall>c\<in>set (S '' , ,''). is_space c \<or> c = 44"
    by (simp add: S_def is_space_def)
  have "(\<forall>c\<in>set (S '' , ,''). is_space c \<or> c = 44) \<longrightarrow> make_chips (PyStr (S '' , ,'')) = S ''N/A''"
    using chips_or_na[of "S '' , ,''"] by (rule conjunct1)
  then have "make_chips (PyStr (S '' , ,'')) = S ''N/A''"
    using h by (rule mp)
  with sp show ?thesis by (intro conjI)
qed

text \<open>
  Claim C10. \<open>safe_text\<close> and \<open>make_chips\<close> never return the empty string, and in every
  rendered row the Cover, Title, Category, Genre, Tags and Price cells are non-empty; the
  Author cell is empty exactly when the first record's Author field is empty, \<open>None\<close> or
  absent.
\<close>

theorem cells_nonempty:
  "safe_text v \<noteq> [] \<and> make_chips v \<noteq> []
   \<and> (render_cells lib fs (k, first # rest) = Inr c \<longrightarrow>
         img c \<noteq> [] \<and> title_cell c \<noteq> [] \<and> category c \<noteq> [] \<and> genre c \<noteq> []
       \<and> tags c \<noteq> [] \<and> price c \<noteq> []
       \<and> (author c = [] \<longleftrightarrow> or_empty (py_get first (S ''Author'')) = []))"
proof (intro conjI impI)
  show "safe_text v \<noteq> []" by (rule safe_text_nonempty)
  show "make_chips v \<noteq> []" by (rule make_chips_nonempty)
next
  assume r: "render_cells lib fs (k, first # rest) = Inr c"
  note f = render_cells_chips[OF r]
  from f show "img c \<noteq> []" and "title_cell c \<noteq> []" by simp_all
  from f show "category c \<noteq> []" and "genre c \<noteq> []" and "tags c \<noteq> []"
    by (simp_all add: make_chips_nonempty)
  from f show "price c \<noteq> []" by (simp add: safe_text_nonempty)
  from f show "author c = [] \<longleftrightarrow> or_empty (py_get first (S ''Author'')) = []"
    by (simp add: safe_html_def html_escape_eq_Nil_iff)
qed

theorem cells_nonempty_witness:
  "\<exists>c. render_cells example_assets (\<lambda>p. Inr False)
          ((S ''A'', []), make_record [S ''Game Name''] [S ''A''] # []) = Inr c
     \<and> author c = [] \<and> price c \<noteq> [] \<and> tags c \<noteq> [] \<and> img c \<noteq> []"
proof -
  let ?first = "make_record [S ''Game Name''] [S ''A'']"
  have ne: "[?first] \<noteq> []"
    by simp
  have t: "py_get (hd [?first]) (S ''Thumbnail'') \<noteq> PyNone"
    by (simp add: key_defs)
  have an: "\<forall>p. \<exists>b. (\<lambda>p. Inr False :: error + bool) p = Inr b"
    by blast
  from render_cells_total[OF ne t an, where k = "(S ''A'', [])" and lib = example_assets]
  obtain c where r: "render_cells example_assets (\<lambda>p. Inr False) ((S ''A'', []), [?first]) = Inr c"
    by (rule exE)
  have "render_cells example_assets (\<lambda>p. Inr False) ((S ''A'', []), [?first]) = Inr c \<longrightarrow>
         img c \<noteq> [] \<and> title_cell c \<noteq> [] \<and> category c \<noteq> [] \<and> genre c \<noteq> []
       \<and> tags c \<noteq> [] \<and> price c \<noteq> []
       \<and> (author c = [] \<longleftrightarrow> or_empty (py_get ?first (S ''Author'')) = [])"
    by (rule cells_nonempty[where v = PyNone and lib = example_assets and fs = "\<lambda>p. Inr False"
        and k = "(S ''A'', [])" and first = ?first and rest = "[]" and c = c,
        THEN conjunct2, THEN conjunct2])
  then have f: "img c \<noteq> [] \<and> title_cell c \<noteq> [] \<and> category c \<noteq> [] \<and> genre c \<noteq> []
       \<and> tags c \<noteq> [] \<and> price c \<noteq> []
       \<and> (author c = [] \<longleftrightarrow> or_empty (py_get ?first (S ''Author'')) = [])"
    using r by (rule mp)
  have e: "or_empty (py_get ?first (S ''Author'')) = []"
    by (simp add: key_defs or_empty_def)
  from f e have "author c = []" and "price c \<noteq> []" and "tags c \<noteq> []" and "img c \<noteq> []"
    by simp_all
  with r show ?thesis by (intro exI[of _ c] conjI)
qed

section \<open>Where the script departs from its description\<close>

text \<open>
  Claim C1 (every field value is HTML-escaped in the output, the Price cell and the Thumbnail
  in the \<open>src\<close> attributes included) fails on the code: the title, link, description,
  author and chips go through \<open>safe_html\<close>, but the price goes through \<open>safe_text\<close> only and
  the thumbnail through \<open>unquote\<close> only. For a row with Thumbnail \<open>x"><script>\<close> (on a file
  system where that path exists) and Price \<open><b>&"\<close> the document contains both values as
  they are.
\<close>

theorem price_and_thumbnail_raw:
  "build_rows example_assets (\<lambda>p. Inr True)
     (Inr [[S ''Game Name'', S ''Thumbnail'', S ''Price''],
           [S ''A'', S ''x\"><script>'', S ''<b>&\"'']])
   = Inr (S ''\<newline>        <tr>\<newline>''
        @ S ''          <td><div class=\"thumb-wrapper\">''
        @ S ''<img class=\"thumb\" src=\"x\"><script>\">''
        @ S ''<img class=\"zoomed\" src=\"x\"><script>\">''
        @ S ''</div></td>\<newline>''
        @ S ''          <td><a href=\"#\" target=\"_blank\">A</a>''
        @ S ''<details style=\"margin-top:4px;\"><summary style=\"cursor:pointer;\">Description</summary>''
        @ S ''<div style=\"margin-top:6px; white-space:pre-wrap; font-size:0.9em; line-height:1.4;\">''
        @ S ''</div></details></td>\<newline>''
        @ S ''          <td></td>\<newline>''
        @ S ''          <td>N/A</td>\<newline>''
        @ S ''          <td>N/A</td>\<newline>''
        @ S ''          <td>N/A</td>\<newline>''
        @ S ''          <td><b>&\"</td>\<newline>''
        @ S ''        </tr>'')"
  by (simp add: build_rows_def dict_reader_def build_rows_list_def sorted_groups_def key_defs
      render_cells_def unquote_def row_html_eq safe_html_def safe_text_def make_chips_def
      or_empty_def html_escape_def replace_def details_html_def suffix_def)

text \<open>
  Claim C2 (a field missing from a row resolves to the empty string and the run does not
  fail) fails on the code for a data row shorter than the header: \<open>csv.DictReader\<close> stores
  \<open>None\<close> under the columns the row lacks, \<open>record.get(key, "")\<close> returns that \<open>None\<close>, and
  \<open>None.strip()\<close> raises AttributeError when the key is computed; likewise \<open>unquote(None)\<close>
  raises TypeError when only the Thumbnail is missing. The run then ends with the error and
  writes nothing. A thumbnail path for which \<open>Path.exists()\<close> raises ends the run in the
  same way.
\<close>

theorem short_row_raises:
  "build_rows example_assets (\<lambda>p. Inr False)
     (Inr [[S ''Game Name'', S ''Game Page Link''], [S ''Foo'']]) = Inl AttributeError
   \<and> build_rows example_assets (\<lambda>p. Inr False)
     (Inr [[S ''Game Name'', S ''Thumbnail''], [S ''Foo'']]) = Inl TypeError
   \<and> main example_assets
        \<lparr> csv_file = Inr [[S ''Game Name'', S ''Game Page Link''], [S ''Foo'']],
          path_exists = (\<lambda>p. Inr False), output_writable = True,
          write_fails = (\<lambda>text. None), stdout_accepts = True,
          output_file = None, stdout = [] \<rparr>
     = (Some AttributeError,
        \<lparr> csv_file = Inr [[S ''Game Name'', S ''Game Page Link''], [S ''Foo'']],
          path_exists = (\<lambda>p. Inr False), output_writable = True,
          write_fails = (\<lambda>text. None), stdout_accepts = True,
          output_file = None, stdout = [] \<rparr>)
   \<and> build_rows example_assets (\<lambda>p. Inl OSError)
     (Inr [[S ''Game Name'', S ''Thumbnail''], [S ''Foo'', S ''x'']]) = Inl OSError"
proof -
  have 1: "build_rows example_assets (\<lambda>p. Inr False)
     (Inr [[S ''Game Name'', S ''Game Page Link''], [S ''Foo'']]) = Inl AttributeError"
    by (simp add: build_rows_def dict_reader_def build_rows_list_def sorted_groups_def key_defs)
  have 2: "build_rows example_assets (\<lambda>p. Inr False)
     (Inr [[S ''Game Name'', S ''Thumbnail''], [S ''Foo'']]) = Inl TypeError"
    by (simp add: build_rows_def dict_reader_def build_rows_list_def sorted_groups_def key_defs
        render_cells_def unquote_def)
  have 3: "main example_assets
        \<lparr> csv_file = Inr [[S ''Game Name'', S ''Game Page Link''], [S ''Foo'']],
          path_exists = (\<lambda>p. Inr False), output_writable = True,
          write_fails = (\<lambda>text. None), stdout_accepts = True,
          output_file = None, stdout = [] \<rparr>
     = (Some AttributeError,
        \<lparr> csv_file = Inr [[S ''Game Name'', S ''Game Page Link''], [S ''Foo'']],
          path_exists = (\<lambda>p. Inr False), output_writable = True,
          write_fails = (\<lambda>text. None), stdout_accepts = True,
          output_file = None, stdout = [] \<rparr>)"
    unfolding main_cases by (simp add: 1)
  have 4: "build_rows example_assets (\<lambda>p. Inl OSError)
     (Inr [[S ''Game Name'', S ''Thumbnail''], [S ''Foo'', S ''x'']]) = Inl OSError"
    by (simp add: build_rows_def dict_reader_def build_rows_list_def sorted_groups_def key_defs
        render_cells_def unquote_def)
  from 1 2 3 4 show ?thesis by (intro conjI)
qed

text \<open>
  Claim C3 (the disclosure element is rendered if and only if the escaped description is
  non-empty) fails on the code: the test compares the escaped description with the text
  N/A, which \<open>safe_html\<close> never produces for an empty field. With no description the title
  cell carries a disclosure element around an empty text; with the description N/A it
  carries none.
\<close>

theorem description_check_misses:
  "map_sum id title_cell
     (render_cells example_assets (\<lambda>p. Inr False)
        ((S ''A'', []), [make_record [S ''Game Name''] [S ''A'']]))
     = Inr (S ''<a href=\"#\" target=\"_blank\">A</a>''
          @ S ''<details style=\"margin-top:4px;\"><summary style=\"cursor:pointer;\">Description</summary>''
          @ S ''<div style=\"margin-top:6px; white-space:pre-wrap; font-size:0.9em; line-height:1.4;\">''
          @ S ''</div></details>'')
   \<and> map_sum id title_cell
     (render_cells example_assets (\<lambda>p. Inr False)
        ((S ''A'', []), [make_record [S ''Game Name'', S ''Description''] [S ''A'', S ''N/A'']]))
     = Inr (S ''<a href=\"#\" target=\"_blank\">A</a>'')"
  by (simp add: render_cells_def unquote_def py_get_def make_record_def safe_html_def
      or_empty_def html_escape_def replace_def details_html_def suffix_def S_def)

end
